theory Spec2Isabelle
  imports Main
begin

section \<open>The CSS selector builder of 08-objects-tasks.js\<close>

subsection \<open>Values and operators of the host language\<close>

text \<open>
  The field \<open>prev\<close> of a selector and the second argument of \<open>setSelector\<close> hold either a
  number (the literals \<open>-1\<close>, \<open>1\<close>, ..., \<open>6\<close> of the source) or \<open>undefined\<close> (the argument
  that \<open>combine\<close> leaves out).
\<close>

datatype jsnum = Undefined | Number int

text \<open>
  \<open>a > b\<close>: both operands are converted to numbers; \<open>undefined\<close> becomes \<open>NaN\<close>, and every
  comparison with \<open>NaN\<close> is false.
\<close>

fun js_gt :: "jsnum \<Rightarrow> jsnum \<Rightarrow> bool" where
  "js_gt (Number a) (Number b) = (b < a)"
| "js_gt _ _ = False"

text \<open>\<open>a === b\<close>: no conversion; \<open>undefined === undefined\<close> is true.\<close>

fun js_strict_eq :: "jsnum \<Rightarrow> jsnum \<Rightarrow> bool" where
  "js_strict_eq (Number a) (Number b) = (a = b)"
| "js_strict_eq Undefined Undefined = True"
| "js_strict_eq _ _ = False"

text \<open>
  The third argument of \<open>setSelector\<close> is the literal \<open>true\<close> or is left out: \<open>None\<close> is the
  omitted argument (\<open>undefined\<close>), and \<open>!undefined\<close> is true.
\<close>

fun js_not :: "bool option \<Rightarrow> bool" where
  "js_not None = True"
| "js_not (Some b) = (\<not> b)"

subsection \<open>The selector object\<close>

text \<open>
  Both failures of the source are \<open>throw new Error(message)\<close>; they differ by message only.
  \<open>OrderError\<close> is the one whose message starts "Selector parts should be arranged in the
  following order", \<open>DuplicateError\<close> the one whose message starts "Element, id and
  pseudo-element should not occur more then one time".
\<close>

datatype error = OrderError | DuplicateError

record MySuperBaseElementSelector =
  line :: string
  prev :: jsnum

text \<open>
  The constructor: \<open>this.line = ''; this.prev = -1\<close>. A string is a list of characters;
  the builder only concatenates strings.
\<close>

definition new_MySuperBaseElementSelector :: MySuperBaseElementSelector where
  "new_MySuperBaseElementSelector = \<lparr>line = [], prev = Number (- 1)\<rparr>"

text \<open>
  A method runs on the object \<open>this\<close> and gives back what it returns, or the error it
  throws, together with the object as the call leaves it. The builder methods return
  \<open>this\<close> itself, which is the second component; so their returned value is \<open>()\<close>.
\<close>

type_synonym 'a meth = "MySuperBaseElementSelector \<Rightarrow> (error + 'a) \<times> MySuperBaseElementSelector"

definition checkOnErrors :: "jsnum \<Rightarrow> bool option \<Rightarrow> unit meth" where
  "checkOnErrors number canDuplicate this =
     (if js_gt (prev this) number then (Inl OrderError, this)
      else if js_strict_eq (prev this) number \<and> js_not canDuplicate then (Inl DuplicateError, this)
      else (Inr (), this))"

definition setSelector :: "string \<Rightarrow> jsnum \<Rightarrow> bool option \<Rightarrow> unit meth" where
  "setSelector selector prev_arg canDuplicate this =
     (case checkOnErrors prev_arg canDuplicate this of
        (Inl e, this1) \<Rightarrow> (Inl e, this1)
      | (Inr _, this1) \<Rightarrow>
          (let this2 = this1\<lparr>prev := prev_arg\<rparr>;
               this3 = this2\<lparr>line := line this2 @ selector\<rparr>
           in (Inr (), this3)))"

definition element :: "string \<Rightarrow> unit meth" where
  "element selector = setSelector selector (Number 1) None"

definition id' :: "string \<Rightarrow> unit meth" where
  "id' selector = setSelector (''#'' @ selector) (Number 2) None"

definition class' :: "string \<Rightarrow> unit meth" where
  "class' selector = setSelector (''.'' @ selector) (Number 3) (Some True)"

definition attr :: "string \<Rightarrow> unit meth" where
  "attr selector = setSelector (''['' @ selector @ '']'') (Number 4) (Some True)"

definition pseudoClass :: "string \<Rightarrow> unit meth" where
  "pseudoClass selector = setSelector ('':'' @ selector) (Number 5) (Some True)"

definition pseudoElement :: "string \<Rightarrow> unit meth" where
  "pseudoElement selector = setSelector (''::'' @ selector) (Number 6) None"

text \<open>
  \<open>combine\<close> reads the \<open>line\<close> of its two arguments and calls \<open>setSelector\<close> with one
  argument only: the rank and the duplicate flag are both \<open>undefined\<close>.
\<close>

definition combine ::
  "MySuperBaseElementSelector \<Rightarrow> string \<Rightarrow> MySuperBaseElementSelector \<Rightarrow> unit meth" where
  "combine selector1 combinator selector2 =
     setSelector (line selector1 @ '' '' @ combinator @ '' '' @ line selector2) Undefined None"

definition stringify :: "string meth" where
  "stringify this = (Inr (line this), this)"

subsection \<open>The facade\<close>

definition cssSelectorBuilder_element :: "string \<Rightarrow> (error + unit) \<times> MySuperBaseElementSelector" where
  "cssSelectorBuilder_element v = element v new_MySuperBaseElementSelector"

definition cssSelectorBuilder_id :: "string \<Rightarrow> (error + unit) \<times> MySuperBaseElementSelector" where
  "cssSelectorBuilder_id v = id' v new_MySuperBaseElementSelector"

definition cssSelectorBuilder_class :: "string \<Rightarrow> (error + unit) \<times> MySuperBaseElementSelector" where
  "cssSelectorBuilder_class v = class' v new_MySuperBaseElementSelector"

definition cssSelectorBuilder_attr :: "string \<Rightarrow> (error + unit) \<times> MySuperBaseElementSelector" where
  "cssSelectorBuilder_attr v = attr v new_MySuperBaseElementSelector"

definition cssSelectorBuilder_pseudoClass :: "string \<Rightarrow> (error + unit) \<times> MySuperBaseElementSelector" where
  "cssSelectorBuilder_pseudoClass v = pseudoClass v new_MySuperBaseElementSelector"

definition cssSelectorBuilder_pseudoElement :: "string \<Rightarrow> (error + unit) \<times> MySuperBaseElementSelector" where
  "cssSelectorBuilder_pseudoElement v = pseudoElement v new_MySuperBaseElementSelector"

definition cssSelectorBuilder_combine ::
  "MySuperBaseElementSelector \<Rightarrow> string \<Rightarrow> MySuperBaseElementSelector
     \<Rightarrow> (error + unit) \<times> MySuperBaseElementSelector" where
  "cssSelectorBuilder_combine selector1 combinator selector2 =
     combine selector1 combinator selector2 new_MySuperBaseElementSelector"


subsection \<open>The six categories and chains of calls\<close>

datatype category = Element | Id | Class | Attribute | PseudoClass | PseudoElement

text \<open>The category-append method of each category.\<close>

fun call :: "category \<Rightarrow> string \<Rightarrow> unit meth" where
  "call Element v = element v"
| "call Id v = id' v"
| "call Class v = class' v"
| "call Attribute v = attr v"
| "call PseudoClass v = pseudoClass v"
| "call PseudoElement v = pseudoElement v"

text \<open>
  A chain \<open>s.m1(v1).m2(v2)...\<close> on one object: each method returns \<open>this\<close>, the next call
  runs on it, and the first error thrown ends the chain.
\<close>

fun chain :: "(category \<times> string) list \<Rightarrow> unit meth" where
  "chain [] this = (Inr (), this)"
| "chain ((c, v) # rest) this =
     (case call c v this of
        (Inl e, this1) \<Rightarrow> (Inl e, this1)
      | (Inr _, this1) \<Rightarrow> chain rest this1)"

text \<open>The table of the specification: rank, duplicate rule and rendering of each category.\<close>

fun rank :: "category \<Rightarrow> int" where
  "rank Element = 1"
| "rank Id = 2"
| "rank Class = 3"
| "rank Attribute = 4"
| "rank PseudoClass = 5"
| "rank PseudoElement = 6"

fun duplicates_allowed :: "category \<Rightarrow> bool" where
  "duplicates_allowed Element = False"
| "duplicates_allowed Id = False"
| "duplicates_allowed Class = True"
| "duplicates_allowed Attribute = True"
| "duplicates_allowed PseudoClass = True"
| "duplicates_allowed PseudoElement = False"

fun rendering :: "category \<Rightarrow> string \<Rightarrow> string" where
  "rendering Element v = v"
| "rendering Id v = ''#'' @ v"
| "rendering Class v = ''.'' @ v"
| "rendering Attribute v = ''['' @ v @ '']''"
| "rendering PseudoClass v = '':'' @ v"
| "rendering PseudoElement v = ''::'' @ v"

text \<open>
  The rank sequences the specification calls valid: non-decreasing, and a rank occurs more
  than once only for a category that allows duplicates.
\<close>

definition valid_rank_sequence :: "category list \<Rightarrow> bool" where
  "valid_rank_sequence cs =
     (sorted (map rank cs) \<and>
      (\<forall>c \<in> set cs. 1 < count_list (map rank cs) (rank c) \<longrightarrow> duplicates_allowed c))"

text \<open>The same with "more than once consecutively": only neighbours are compared.\<close>

definition consecutive_valid :: "category list \<Rightarrow> bool" where
  "consecutive_valid cs =
     (sorted (map rank cs) \<and>
      (\<forall>(c, d) \<in> set (zip cs (tl cs)). rank c = rank d \<longrightarrow> duplicates_allowed d))"

subsection \<open>Arbitrary use of one selector\<close>

text \<open>
  Everything a caller can do with one selector object: a category-append call, the
  \<open>combine\<close> method of the prototype, and \<open>stringify\<close>. A caller that catches an error
  goes on with the object as the failed call left it.
\<close>

datatype operation =
    Append category string
  | Combine MySuperBaseElementSelector string MySuperBaseElementSelector
  | Stringify

text \<open>The categories of the accepted category-append calls, in call order.\<close>

fun accepted_appends :: "operation list \<Rightarrow> MySuperBaseElementSelector \<Rightarrow> category list" where
  "accepted_appends [] this = []"
| "accepted_appends (Append c v # ops) this =
     (case call c v this of
        (Inl e, this1) \<Rightarrow> accepted_appends ops this1
      | (Inr _, this1) \<Rightarrow> c # accepted_appends ops this1)"
| "accepted_appends (Combine a k b # ops) this = accepted_appends ops (snd (combine a k b this))"
| "accepted_appends (Stringify # ops) this = accepted_appends ops (snd (stringify this))"

text \<open>
  The same, counted from the last accepted \<open>combine\<close> on the object: \<open>log\<close> holds the
  categories accepted so far and is emptied when \<open>combine\<close> is accepted.
\<close>

fun appends_since_combine ::
  "operation list \<Rightarrow> MySuperBaseElementSelector \<Rightarrow> category list \<Rightarrow> category list" where
  "appends_since_combine [] this log = log"
| "appends_since_combine (Append c v # ops) this log =
     (case call c v this of
        (Inl e, this1) \<Rightarrow> appends_since_combine ops this1 log
      | (Inr _, this1) \<Rightarrow> appends_since_combine ops this1 (log @ [c]))"
| "appends_since_combine (Combine a k b # ops) this log =
     (case combine a k b this of
        (Inl e, this1) \<Rightarrow> appends_since_combine ops this1 log
      | (Inr _, this1) \<Rightarrow> appends_since_combine ops this1 [])"
| "appends_since_combine (Stringify # ops) this log =
     appends_since_combine ops (snd (stringify this)) log"

text \<open>The object as a sequence of operations leaves it.\<close>

fun final_state :: "operation list \<Rightarrow> MySuperBaseElementSelector \<Rightarrow> MySuperBaseElementSelector" where
  "final_state [] this = this"
| "final_state (Append c v # ops) this = final_state ops (snd (call c v this))"
| "final_state (Combine a k b # ops) this = final_state ops (snd (combine a k b this))"
| "final_state (Stringify # ops) this = final_state ops (snd (stringify this))"

section \<open>fromJSON\<close>

subsection \<open>Strings, values and arguments\<close>

text \<open>
  A string of the host is a sequence of 16-bit code units, here a list of natural numbers;
  \<open>js\<close> turns a literal into one.
\<close>

type_synonym js_string = "nat list"

definition js :: "string \<Rightarrow> js_string" where
  "js s = map of_char s"

text \<open>
  Objects that exist before the call are named by reference: the two prototypes that
  \<open>JSON.parse\<close> gives to what it creates, \<open>Rectangle.prototype\<close> of this file, and any
  other object.
\<close>

datatype ref = Object_prototype | Array_prototype | Rectangle_prototype | Other_object nat

text \<open>
  What \<open>JSON.parse\<close> returns. An array or object is new, so it is given by its content:
  its prototype slot (\<open>None\<close> is \<open>null\<close>) and its elements or own properties, in creation
  order. A number is kept as the literal that denotes it.
\<close>

datatype jsvalue =
    VNull
  | VBool bool
  | VNumber js_string
  | VString js_string
  | VArray "ref option" "jsvalue list"
  | VObject "ref option" "(js_string \<times> jsvalue) list"

text \<open>
  The arguments: \<open>proto\<close> is documented as an object and \<open>json\<close> as a string; either may
  also be \<open>undefined\<close> or \<open>null\<close>.
\<close>

datatype 'a nullable = JSundefined | JSnull | Given 'a

datatype js_error = SyntaxError | TypeError

text \<open>\<open>!json\<close> and \<open>!proto\<close>: the empty string, \<open>undefined\<close> and \<open>null\<close> are falsy, an object is not.\<close>

fun js_not_string :: "js_string nullable \<Rightarrow> bool" where
  "js_not_string (Given s) = (s = [])"
| "js_not_string _ = True"

fun js_not_object :: "ref nullable \<Rightarrow> bool" where
  "js_not_object (Given r) = False"
| "js_not_object _ = True"

text \<open>\<open>JSON.parse\<close> first converts its argument to a string.\<close>

fun ToString :: "js_string nullable \<Rightarrow> js_string" where
  "ToString JSundefined = js ''undefined''"
| "ToString JSnull = js ''null''"
| "ToString (Given s) = s"

subsection \<open>JSON.parse\<close>

text \<open>
  \<open>JSON.parse\<close> of the host (ECMA-262, with the grammar of ECMA-404), as an automaton that
  reads the text one code unit at a time: \<open>mode\<close> is the place in the grammar, the stack holds
  the arrays and objects that are still open. A text that is not JSON raises
  \<open>SyntaxError\<close>. Code units are written as numbers where a character literal cannot be:
  \<open>34\<close> is the quotation mark, \<open>92\<close> the backslash, \<open>9\<close>, \<open>10\<close>, \<open>13\<close>, \<open>32\<close> are the
  white space of JSON.
\<close>

datatype number_part =
  After_minus | Zero | Int_digits | After_point | Frac_digits | After_e | After_sign | Exp_digits

datatype continuation = Goes_on number_part | Ends | Malformed

datatype frame =
    Array_frame "jsvalue list"
  | Object_frame "(js_string \<times> jsvalue) list" js_string

datatype mode =
    Value_expected
  | Value_or_close
  | Key_or_close
  | Key_expected
  | Colon_expected
  | Comma_or_close
  | Finished jsvalue
  | In_literal js_string jsvalue
  | In_number number_part js_string
  | In_string bool js_string
  | In_escape bool js_string
  | In_unicode bool js_string "nat list"

type_synonym parser = "mode \<times> frame list"

definition is_ws :: "nat \<Rightarrow> bool" where
  "is_ws c = (c = 9 \<or> c = 10 \<or> c = 13 \<or> c = 32)"

definition is_digit :: "nat \<Rightarrow> bool" where
  "is_digit c = (48 \<le> c \<and> c \<le> 57)"

definition hex_value :: "nat \<Rightarrow> nat option" where
  "hex_value c =
     (if 48 \<le> c \<and> c \<le> 57 then Some (c - 48)
      else if 97 \<le> c \<and> c \<le> 102 then Some (c - 87)
      else if 65 \<le> c \<and> c \<le> 70 then Some (c - 55)
      else None)"

text \<open>A key that occurs again overwrites the value of the property.\<close>

fun set_property :: "(js_string \<times> jsvalue) list \<Rightarrow> js_string \<Rightarrow> jsvalue \<Rightarrow> (js_string \<times> jsvalue) list" where
  "set_property [] k v = [(k, v)]"
| "set_property ((k', v') # ps) k v =
     (if k' = k then (k', v) # ps else (k', v') # set_property ps k v)"

text \<open>A finished value goes to the innermost open array or object, or is the result.\<close>

fun deliver :: "jsvalue \<Rightarrow> frame list \<Rightarrow> parser" where
  "deliver v [] = (Finished v, [])"
| "deliver v (Array_frame vs # st) = (Comma_or_close, Array_frame (vs @ [v]) # st)"
| "deliver v (Object_frame ps k # st) = (Comma_or_close, Object_frame (set_property ps k v) k # st)"

definition begin_value :: "nat \<Rightarrow> frame list \<Rightarrow> js_error + parser" where
  "begin_value c st =
     (if c = 34 then Inr (In_string False [], st)
      else if c = of_char CHR ''['' then Inr (Value_or_close, Array_frame [] # st)
      else if c = of_char CHR ''{'' then Inr (Key_or_close, Object_frame [] [] # st)
      else if c = of_char CHR ''-'' then Inr (In_number After_minus [c], st)
      else if c = of_char CHR ''0'' then Inr (In_number Zero [c], st)
      else if is_digit c then Inr (In_number Int_digits [c], st)
      else if c = of_char CHR ''t'' then Inr (In_literal (js ''rue'') (VBool True), st)
      else if c = of_char CHR ''f'' then Inr (In_literal (js ''alse'') (VBool False), st)
      else if c = of_char CHR ''n'' then Inr (In_literal (js ''ull'') VNull, st)
      else Inl SyntaxError)"

fun end_array :: "frame list \<Rightarrow> js_error + parser" where
  "end_array (Array_frame vs # st) = Inr (deliver (VArray (Some Array_prototype) vs) st)"
| "end_array _ = Inl SyntaxError"

fun end_object :: "frame list \<Rightarrow> js_error + parser" where
  "end_object (Object_frame ps k # st) = Inr (deliver (VObject (Some Object_prototype) ps) st)"
| "end_object _ = Inl SyntaxError"

fun next_item :: "frame list \<Rightarrow> js_error + parser" where
  "next_item (Array_frame vs # st) = Inr (Value_expected, Array_frame vs # st)"
| "next_item (Object_frame ps k # st) = Inr (Key_expected, Object_frame ps k # st)"
| "next_item [] = Inl SyntaxError"

fun end_key :: "js_string \<Rightarrow> frame list \<Rightarrow> js_error + parser" where
  "end_key k (Object_frame ps k0 # st) = Inr (Colon_expected, Object_frame ps k # st)"
| "end_key k _ = Inl SyntaxError"

fun number_next :: "number_part \<Rightarrow> nat \<Rightarrow> continuation" where
  "number_next After_minus c =
     (if c = of_char CHR ''0'' then Goes_on Zero
      else if is_digit c then Goes_on Int_digits else Malformed)"
| "number_next Zero c =
     (if c = of_char CHR ''.'' then Goes_on After_point
      else if c = of_char CHR ''e'' \<or> c = of_char CHR ''E'' then Goes_on After_e else Ends)"
| "number_next Int_digits c =
     (if is_digit c then Goes_on Int_digits
      else if c = of_char CHR ''.'' then Goes_on After_point
      else if c = of_char CHR ''e'' \<or> c = of_char CHR ''E'' then Goes_on After_e else Ends)"
| "number_next After_point c = (if is_digit c then Goes_on Frac_digits else Malformed)"
| "number_next Frac_digits c =
     (if is_digit c then Goes_on Frac_digits
      else if c = of_char CHR ''e'' \<or> c = of_char CHR ''E'' then Goes_on After_e else Ends)"
| "number_next After_e c =
     (if c = of_char CHR ''+'' \<or> c = of_char CHR ''-'' then Goes_on After_sign
      else if is_digit c then Goes_on Exp_digits else Malformed)"
| "number_next After_sign c = (if is_digit c then Goes_on Exp_digits else Malformed)"
| "number_next Exp_digits c = (if is_digit c then Goes_on Exp_digits else Ends)"

fun complete_number :: "number_part \<Rightarrow> bool" where
  "complete_number Zero = True"
| "complete_number Int_digits = True"
| "complete_number Frac_digits = True"
| "complete_number Exp_digits = True"
| "complete_number _ = False"

fun between :: "mode \<Rightarrow> frame list \<Rightarrow> nat \<Rightarrow> js_error + parser" where
  "between Value_expected st c =
     (if is_ws c then Inr (Value_expected, st) else begin_value c st)"
| "between Value_or_close st c =
     (if is_ws c then Inr (Value_or_close, st)
      else if c = of_char CHR '']'' then end_array st
      else begin_value c st)"
| "between Key_or_close st c =
     (if is_ws c then Inr (Key_or_close, st)
      else if c = of_char CHR ''}'' then end_object st
      else if c = 34 then Inr (In_string True [], st)
      else Inl SyntaxError)"
| "between Key_expected st c =
     (if is_ws c then Inr (Key_expected, st)
      else if c = 34 then Inr (In_string True [], st)
      else Inl SyntaxError)"
| "between Colon_expected st c =
     (if is_ws c then Inr (Colon_expected, st)
      else if c = of_char CHR '':'' then Inr (Value_expected, st)
      else Inl SyntaxError)"
| "between Comma_or_close st c =
     (if is_ws c then Inr (Comma_or_close, st)
      else if c = of_char CHR '','' then next_item st
      else if c = of_char CHR '']'' then end_array st
      else if c = of_char CHR ''}'' then end_object st
      else Inl SyntaxError)"
| "between (Finished v) st c =
     (if is_ws c then Inr (Finished v, st) else Inl SyntaxError)"
| "between _ st c = Inl SyntaxError"

fun step :: "parser \<Rightarrow> nat \<Rightarrow> js_error + parser" where
  "step (In_literal rest v, st) c =
     (case rest of
        [] \<Rightarrow> Inl SyntaxError
      | r # rs \<Rightarrow>
          if c \<noteq> r then Inl SyntaxError
          else if rs = [] then Inr (deliver v st)
          else Inr (In_literal rs v, st))"
| "step (In_number part lexeme, st) c =
     (case number_next part c of
        Goes_on part' \<Rightarrow> Inr (In_number part' (lexeme @ [c]), st)
      | Malformed \<Rightarrow> Inl SyntaxError
      | Ends \<Rightarrow> (case deliver (VNumber lexeme) st of (m, st') \<Rightarrow> between m st' c))"
| "step (In_string key s, st) c =
     (if c = 34 then (if key then end_key s st else Inr (deliver (VString s) st))
      else if c = 92 then Inr (In_escape key s, st)
      else if c < 32 then Inl SyntaxError
      else Inr (In_string key (s @ [c]), st))"
| "step (In_escape key s, st) c =
     (if c = 34 \<or> c = 92 \<or> c = of_char CHR ''/'' then Inr (In_string key (s @ [c]), st)
      else if c = of_char CHR ''b'' then Inr (In_string key (s @ [8]), st)
      else if c = of_char CHR ''f'' then Inr (In_string key (s @ [12]), st)
      else if c = of_char CHR ''n'' then Inr (In_string key (s @ [10]), st)
      else if c = of_char CHR ''r'' then Inr (In_string key (s @ [13]), st)
      else if c = of_char CHR ''t'' then Inr (In_string key (s @ [9]), st)
      else if c = of_char CHR ''u'' then Inr (In_unicode key s [], st)
      else Inl SyntaxError)"
| "step (In_unicode key s ds, st) c =
     (case hex_value c of
        None \<Rightarrow> Inl SyntaxError
      | Some d \<Rightarrow>
          if length ds = 3 then Inr (In_string key (s @ [foldl (\<lambda>n h. 16 * n + h) 0 (ds @ [d])]), st)
          else Inr (In_unicode key s (ds @ [d]), st))"
| "step (m, st) c = between m st c"

fun run :: "parser \<Rightarrow> js_string \<Rightarrow> js_error + parser" where
  "run p [] = Inr p"
| "run p (c # cs) = (case step p c of Inl e \<Rightarrow> Inl e | Inr p' \<Rightarrow> run p' cs)"

fun finish :: "parser \<Rightarrow> js_error + jsvalue" where
  "finish (Finished v, []) = Inr v"
| "finish (In_number part lexeme, []) =
     (if complete_number part then Inr (VNumber lexeme) else Inl SyntaxError)"
| "finish _ = Inl SyntaxError"

definition JSON_parse :: "js_string nullable \<Rightarrow> js_error + jsvalue" where
  "JSON_parse jsonString =
     (case run (Value_expected, []) (ToString jsonString) of
        Inl e \<Rightarrow> Inl e
      | Inr p \<Rightarrow> finish p)"

subsection \<open>Object.setPrototypeOf and fromJSON\<close>

text \<open>
  \<open>Object.setPrototypeOf(obj, proto)\<close>: \<open>TypeError\<close> when \<open>obj\<close> is \<open>null\<close> or \<open>proto\<close> is
  neither an object nor \<open>null\<close>; a primitive \<open>obj\<close> is returned as it is; otherwise the
  prototype of \<open>obj\<close>, which is new and extensible, is set.
\<close>

fun prototype_slot :: "ref nullable \<Rightarrow> ref option" where
  "prototype_slot (Given r) = Some r"
| "prototype_slot _ = None"

fun Object_setPrototypeOf :: "jsvalue \<Rightarrow> ref nullable \<Rightarrow> js_error + jsvalue" where
  "Object_setPrototypeOf VNull proto = Inl TypeError"
| "Object_setPrototypeOf obj JSundefined = Inl TypeError"
| "Object_setPrototypeOf (VArray p elements) proto = Inr (VArray (prototype_slot proto) elements)"
| "Object_setPrototypeOf (VObject p properties) proto = Inr (VObject (prototype_slot proto) properties)"
| "Object_setPrototypeOf obj proto = Inr obj"

text \<open>
  \<open>fromJSON\<close> of the source: \<open>null\<close> when both arguments are falsy, otherwise the parsed
  value after \<open>Object.setPrototypeOf\<close>; what the two host functions raise propagates.
\<close>

definition fromJSON :: "ref nullable \<Rightarrow> js_string nullable \<Rightarrow> js_error + jsvalue" where
  "fromJSON proto json =
     (if js_not_string json \<and> js_not_object proto then Inr VNull
      else case JSON_parse json of
             Inl e \<Rightarrow> Inl e
           | Inr obj \<Rightarrow> Object_setPrototypeOf obj proto)"

section \<open>Properties\<close>

subsection \<open>One call\<close>

lemma call_setSelector:
  "call c v = setSelector (rendering c v) (Number (rank c))
     (if duplicates_allowed c then Some True else None)"
  by (cases c) (simp_all add: element_def id'_def class'_def attr_def pseudoClass_def pseudoElement_def)

text \<open>When a call on an object whose last rank is the number \<open>p\<close> is accepted.\<close>

lemma call_Number:
  "prev this = Number p \<Longrightarrow>
   call c v this =
     (if rank c < p then (Inl OrderError, this)
      else if p = rank c \<and> \<not> duplicates_allowed c then (Inl DuplicateError, this)
      else (Inr (), \<lparr>line = line this @ rendering c v, prev = Number (rank c)\<rparr>))"
  by (simp add: call_setSelector setSelector_def checkOnErrors_def)

lemma call_Undefined:
  "prev this = Undefined \<Longrightarrow>
   call c v this = (Inr (), \<lparr>line = line this @ rendering c v, prev = Number (rank c)\<rparr>)"
  by (simp add: call_setSelector setSelector_def checkOnErrors_def)

lemma rank_bounds: "1 \<le> rank c \<and> rank c \<le> 6"
  by (cases c) simp_all

lemma rank_inj: "rank c = rank d \<Longrightarrow> c = d"
  by (cases c; cases d) simp_all

lemma call_new:
  "call c v new_MySuperBaseElementSelector = (Inr (), \<lparr>line = rendering c v, prev = Number (rank c)\<rparr>)"
  using rank_bounds [of c]
  by (simp add: call_Number [where p = "- 1"] new_MySuperBaseElementSelector_def)

subsection \<open>Valid rank sequences\<close>

lemma consecutive_valid_Cons2:
  "consecutive_valid (c # d # cs) =
     ((rank c < rank d \<or> (rank c = rank d \<and> duplicates_allowed d)) \<and> consecutive_valid (d # cs))"
  by (auto simp: consecutive_valid_def)

lemma consecutive_valid_single: "consecutive_valid [c]" and consecutive_valid_Nil: "consecutive_valid []"
  by (simp_all add: consecutive_valid_def)

lemma neighbours_counted:
  "(c, d) \<in> set (zip cs (tl cs)) \<Longrightarrow> f c = f d \<Longrightarrow> 1 < count_list (map f cs) (f d)"
proof (induction cs)
  case Nil
  then show ?case by simp
next
  case (Cons a cs)
  show ?case
  proof (cases cs)
    case Nil
    with Cons.prems show ?thesis by simp
  next
    case (Cons b bs)
    from Cons.prems Cons consider "c = a" "d = b" | "(c, d) \<in> set (zip cs (tl cs))"
      by auto
    then show ?thesis
    proof cases
      case 1
      with Cons Cons.prems(2) show ?thesis by simp
    next
      case 2
      from Cons.IH [OF 2 Cons.prems(2)] show ?thesis by simp
    qed
  qed
qed

lemma valid_imp_consecutive:
  assumes "valid_rank_sequence cs"
  shows "consecutive_valid cs"
proof -
  from assms have srt: "sorted (map rank cs)"
    and cnt: "\<And>c. c \<in> set cs \<Longrightarrow> 1 < count_list (map rank cs) (rank c) \<Longrightarrow> duplicates_allowed c"
    by (simp_all add: valid_rank_sequence_def)
  have "duplicates_allowed d" if "(c, d) \<in> set (zip cs (tl cs))" "rank c = rank d" for c d
  proof -
    from that(1) have "d \<in> set (tl cs)" by (rule set_zip_rightD)
    then have "d \<in> set cs" by (cases cs) auto
    moreover have "1 < count_list (map rank cs) (rank d)"
      using that by (rule neighbours_counted)
    ultimately show ?thesis by (rule cnt)
  qed
  with srt show ?thesis by (auto simp: consecutive_valid_def)
qed

lemma consecutive_imp_valid: "consecutive_valid cs \<Longrightarrow> valid_rank_sequence cs"
proof (induction cs)
  case Nil
  then show ?case by (simp add: valid_rank_sequence_def)
next
  case (Cons c cs)
  show ?case
  proof (cases cs)
    case Nil
    then show ?thesis by (simp add: valid_rank_sequence_def)
  next
    case (Cons d ds)
    from Cons.prems Cons have step: "rank c < rank d \<or> (rank c = rank d \<and> duplicates_allowed d)"
      and rest: "consecutive_valid cs"
      by (simp_all add: consecutive_valid_Cons2)
    from Cons.IH [OF rest] have ih: "valid_rank_sequence cs" .
    have srt: "sorted (map rank (c # cs))" using Cons.prems by (simp add: consecutive_valid_def)
    have "duplicates_allowed x" if x: "x \<in> set (c # cs)" and cnt: "1 < count_list (map rank (c # cs)) (rank x)" for x
    proof (cases "rank c = rank x")
      case True
      then have "count_list (map rank cs) (rank x) \<noteq> 0" using cnt by simp
      then have "rank x \<in> set (map rank cs)" by (simp add: count_list_0_iff)
      then have "rank d \<le> rank x" using srt Cons by auto
      with True step have "rank c = rank d \<and> duplicates_allowed d" by auto
      with True show ?thesis using rank_inj [of d x] by auto
    next
      case False
      then have "x \<in> set cs" "1 < count_list (map rank cs) (rank x)" using x cnt rank_inj by auto
      with ih show ?thesis by (auto simp: valid_rank_sequence_def)
    qed
    with srt show ?thesis by (auto simp: valid_rank_sequence_def)
  qed
qed

lemma valid_iff_consecutive: "valid_rank_sequence cs = consecutive_valid cs"
  using valid_imp_consecutive consecutive_imp_valid by blast

subsection \<open>Chains\<close>

lemma chain_from_Number:
  "prev this = Number p \<Longrightarrow> consecutive_valid (map fst calls) \<Longrightarrow>
   (\<forall>c v rest. calls = (c, v) # rest \<longrightarrow> p < rank c \<or> (p = rank c \<and> duplicates_allowed c)) \<Longrightarrow>
   fst (chain calls this) = Inr () \<and>
   line (snd (chain calls this)) = line this @ concat (map (\<lambda>(c, v). rendering c v) calls)"
proof (induction calls arbitrary: this p)
  case Nil
  then show ?case by simp
next
  case (Cons x calls)
  obtain c v where x: "x = (c, v)" by (cases x)
  let ?this1 = "\<lparr>line = line this @ rendering c v, prev = Number (rank c)\<rparr>"
  from Cons.prems(3) x have ok: "p < rank c \<or> (p = rank c \<and> duplicates_allowed c)" by simp
  with Cons.prems(1) have step: "call c v this = (Inr (), ?this1)"
    by (auto simp: call_Number)
  have rest: "consecutive_valid (map fst calls)"
    using Cons.prems(2) x by (cases calls) (simp_all add: consecutive_valid_Cons2 consecutive_valid_Nil)
  have first: "\<forall>d w rest. calls = (d, w) # rest \<longrightarrow> rank c < rank d \<or> (rank c = rank d \<and> duplicates_allowed d)"
    using Cons.prems(2) x by (auto simp: consecutive_valid_Cons2)
  have "prev ?this1 = Number (rank c)" by simp
  from Cons.IH [OF this rest first] show ?case
    by (simp add: x step)
qed

lemma call_prev_only:
  "prev s = prev t \<Longrightarrow> fst (call c v s) = fst (call c v t) \<and>
     (fst (call c v s) = Inr () \<longrightarrow> prev (snd (call c v s)) = prev (snd (call c v t)))"
  by (simp add: call_setSelector setSelector_def checkOnErrors_def)

lemma chain_prev_only: "prev s = prev t \<Longrightarrow> fst (chain calls s) = fst (chain calls t)"
proof (induction calls arbitrary: s t)
  case Nil
  then show ?case by simp
next
  case (Cons x calls)
  obtain c v where x: "x = (c, v)" by (cases x)
  from call_prev_only [OF Cons.prems, of c v] 
  show ?case
    using Cons.IH [of "snd (call c v s)" "snd (call c v t)"]
    by (auto simp: x split: prod.splits sum.splits)
qed

subsection \<open>Arbitrary use of one selector: the accepted ranks\<close>

lemma consecutive_valid_snoc:
  "consecutive_valid log \<Longrightarrow>
   (log \<noteq> [] \<longrightarrow> rank (last log) < rank c \<or> (rank (last log) = rank c \<and> duplicates_allowed c)) \<Longrightarrow>
   consecutive_valid (log @ [c])"
proof (induction log rule: induct_list012)
  case 1
  then show ?case by (simp add: consecutive_valid_single)
next
  case (2 x)
  then show ?case by (simp add: consecutive_valid_Cons2 consecutive_valid_single)
next
  case (3 x y zs)
  then show ?case by (simp add: consecutive_valid_Cons2)
qed

lemma call_raises_unchanged: "call c v this = (Inl e, this1) \<Longrightarrow> this1 = this"
  by (auto simp: call_setSelector setSelector_def checkOnErrors_def split: if_splits)

lemma combine_raises_unchanged: "combine a k b this = (Inl e, this1) \<Longrightarrow> this1 = this"
  by (auto simp: combine_def setSelector_def checkOnErrors_def split: if_splits)

lemma call_accepted_prev: "call c v this = (Inr u, this1) \<Longrightarrow> prev this1 = Number (rank c)"
  by (auto simp: call_setSelector setSelector_def checkOnErrors_def split: if_splits)

lemma appends_since_combine_valid:
  "consecutive_valid log \<Longrightarrow> (log \<noteq> [] \<longrightarrow> prev this = Number (rank (last log))) \<Longrightarrow>
   consecutive_valid (appends_since_combine ops this log)"
proof (induction ops arbitrary: this log)
  case Nil
  then show ?case by simp
next
  case (Cons op ops)
  show ?case
  proof (cases op)
    case (Append c v)
    obtain r this1 where r: "call c v this = (r, this1)" by (cases "call c v this")
    show ?thesis
    proof (cases r)
      case (Inl e)
      with r have "this1 = this" by (simp add: call_raises_unchanged)
      with Inl r Cons.IH [OF Cons.prems] show ?thesis
        by (simp add: Append del: call.simps)
    next
      case (Inr u)
      with r have p: "prev this1 = Number (rank c)" by (simp add: call_accepted_prev)
      have "log \<noteq> [] \<longrightarrow> rank (last log) < rank c \<or> (rank (last log) = rank c \<and> duplicates_allowed c)"
      proof
        assume "log \<noteq> []"
        with Cons.prems(2) have "prev this = Number (rank (last log))" by simp
        from call_Number [OF this, of c v] Inr r
        show "rank (last log) < rank c \<or> (rank (last log) = rank c \<and> duplicates_allowed c)"
          by (auto split: if_splits)
      qed
      with Cons.prems(1) have "consecutive_valid (log @ [c])" by (rule consecutive_valid_snoc)
      from Cons.IH [OF this, of this1] p Inr r show ?thesis
        by (simp add: Append del: call.simps)
    qed
  next
    case (Combine a k b)
    obtain r this1 where r: "combine a k b this = (r, this1)" by (cases "combine a k b this")
    show ?thesis
    proof (cases r)
      case (Inl e)
      with r have "this1 = this" by (simp add: combine_raises_unchanged)
      with Inl r Cons.IH [OF Cons.prems] show ?thesis
        by (simp add: Combine)
    next
      case (Inr u)
      from Cons.IH [of "[]" this1] Inr r show ?thesis
        by (simp add: Combine consecutive_valid_Nil)
    qed
  next
    case Stringify
    with Cons.IH [OF Cons.prems] show ?thesis by (simp add: stringify_def)
  qed
qed

lemma appends_without_combine:
  "\<forall>a k b. Combine a k b \<notin> set ops \<Longrightarrow>
   appends_since_combine ops this log = log @ accepted_appends ops this"
proof (induction ops arbitrary: this log)
  case Nil
  then show ?case by simp
next
  case (Cons op ops)
  from Cons.prems have rest: "\<forall>a k b. Combine a k b \<notin> set ops" by simp
  note ih = Cons.IH [OF rest]
  show ?case
  proof (cases op)
    case (Append c v)
    then show ?thesis
      by (simp add: ih split: prod.splits sum.splits del: call.simps)
  next
    case (Combine a k b)
    with Cons.prems have False by auto
    then show ?thesis ..
  next
    case Stringify
    then show ?thesis by (simp add: ih)
  qed
qed

text \<open>
  The field \<open>prev\<close> against the history of the object: while a category-append call has
  been accepted since the last accepted \<open>combine\<close>, \<open>prev\<close> is the rank of the last
  accepted category-append call.
\<close>

lemma prev_after_operations:
  "(log \<noteq> [] \<longrightarrow> prev this = Number (rank (last log))) \<Longrightarrow>
   appends_since_combine ops this log \<noteq> [] \<Longrightarrow>
   prev (final_state ops this) = Number (rank (last (appends_since_combine ops this log)))"
proof (induction ops arbitrary: this log)
  case Nil
  then show ?case by simp
next
  case (Cons op ops)
  show ?case
  proof (cases op)
    case (Append c v)
    obtain r this1 where r: "call c v this = (r, this1)" by (cases "call c v this")
    show ?thesis
    proof (cases r)
      case (Inl e)
      with r have "this1 = this" by (simp add: call_raises_unchanged)
      with Inl r Cons.IH [of log this] Cons.prems show ?thesis
        by (simp add: Append del: call.simps)
    next
      case (Inr u)
      with r have "prev this1 = Number (rank c)" by (simp add: call_accepted_prev)
      with Inr r Cons.IH [of "log @ [c]" this1] Cons.prems(2) show ?thesis
        by (simp add: Append del: call.simps)
    qed
  next
    case (Combine a k b)
    obtain r this1 where r: "combine a k b this = (r, this1)" by (cases "combine a k b this")
    show ?thesis
    proof (cases r)
      case (Inl e)
      with r have "this1 = this" by (simp add: combine_raises_unchanged)
      with Inl r Cons.IH [of log this] Cons.prems show ?thesis
        by (simp add: Combine)
    next
      case (Inr u)
      with r Cons.IH [of "[]" this1] Cons.prems(2) show ?thesis
        by (simp add: Combine)
    qed
  next
    case Stringify
    with Cons.IH [of log this] Cons.prems show ?thesis by (simp add: stringify_def)
  qed
qed

lemma appends_since_combine_suffix:
  "\<exists>before. log @ accepted_appends ops this = before @ appends_since_combine ops this log"
proof (induction ops arbitrary: this log)
  case Nil
  have "log @ accepted_appends [] this = [] @ appends_since_combine [] this log" by simp
  then show ?case by blast
next
  case (Cons op ops)
  show ?case
  proof (cases op)
    case (Append c v)
    obtain r this1 where r: "call c v this = (r, this1)" by (cases "call c v this")
    show ?thesis
    proof (cases r)
      case (Inl e)
      with r Cons.IH [of log this1] show ?thesis by (simp add: Append del: call.simps)
    next
      case (Inr u)
      with r Cons.IH [of "log @ [c]" this1] show ?thesis by (simp add: Append del: call.simps)
    qed
  next
    case (Combine a k b)
    obtain r this1 where r: "combine a k b this = (r, this1)" by (cases "combine a k b this")
    show ?thesis
    proof (cases r)
      case (Inl e)
      with r Cons.IH [of log this1] show ?thesis by (simp add: Combine)
    next
      case (Inr u)
      from Cons.IH [of "[]" this1] obtain before
        where "accepted_appends ops this1 = before @ appends_since_combine ops this1 []" by auto
      then have "log @ accepted_appends ops this1 = (log @ before) @ appends_since_combine ops this1 []"
        by simp
      then have "\<exists>before. log @ accepted_appends ops this1 = before @ appends_since_combine ops this1 []"
        by blast
      with Inr r show ?thesis by (simp add: Combine)
    qed
  next
    case Stringify
    with Cons.IH [of log "snd (stringify this)"] show ?thesis by simp
  qed
qed

lemma last_appended:
  assumes "appends_since_combine ops this [] \<noteq> []"
  shows "accepted_appends ops this \<noteq> [] \<and>
         last (accepted_appends ops this) = last (appends_since_combine ops this [])"
proof -
  from appends_since_combine_suffix [of "[]" ops this] obtain before
    where "accepted_appends ops this = before @ appends_since_combine ops this []" by auto
  with assms show ?thesis by simp
qed

lemma prev_is_last_appended:
  assumes "appends_since_combine ops new_MySuperBaseElementSelector [] \<noteq> []"
  shows "prev (final_state ops new_MySuperBaseElementSelector) =
         Number (rank (last (accepted_appends ops new_MySuperBaseElementSelector)))"
  using prev_after_operations [of "[]" new_MySuperBaseElementSelector ops] last_appended [OF assms] assms
  by simp

subsection \<open>The combine method\<close>

lemma combine_accepted:
  "combine a k b this =
     (if prev this = Undefined then (Inl DuplicateError, this)
      else (Inr (), \<lparr>line = line this @ line a @ '' '' @ k @ '' '' @ line b, prev = Undefined\<rparr>))"
  by (cases "prev this") (simp_all add: combine_def setSelector_def checkOnErrors_def)

lemma chain_after_combine:
  assumes "prev this = Undefined"
  shows "fst (chain calls this) = fst (chain calls new_MySuperBaseElementSelector)"
proof (cases calls)
  case Nil
  then show ?thesis by simp
next
  case (Cons x rest)
  obtain c v where x: "x = (c, v)" by (cases x)
  let ?s1 = "\<lparr>line = line this @ rendering c v, prev = Number (rank c)\<rparr>"
  let ?s2 = "\<lparr>line = rendering c v, prev = Number (rank c)\<rparr>"
  have "prev ?s1 = prev ?s2" by simp
  then have "fst (chain rest ?s1) = fst (chain rest ?s2)" by (rule chain_prev_only)
  then show ?thesis
    by (simp add: Cons x call_Undefined [OF assms] call_new del: call.simps)
qed

text \<open>
  Where \<open>combine\<close> is accepted, the category-append calls chained on the selector start
  afresh: the first is accepted whatever its rank, and a chain of them is accepted or
  rejected exactly as on a new selector.
\<close>

lemma chain_after_accepted_combine:
  assumes "fst (combine a k b this) = Inr ()"
  shows "fst (call c v (snd (combine a k b this))) = Inr ()"
    and "fst (chain calls (snd (combine a k b this))) = fst (chain calls new_MySuperBaseElementSelector)"
proof -
  from assms have u: "prev (snd (combine a k b this)) = Undefined"
    by (simp add: combine_accepted split: if_splits)
  from call_Undefined [OF u] show "fst (call c v (snd (combine a k b this))) = Inr ()"
    by simp
  from u show "fst (chain calls (snd (combine a k b this))) = fst (chain calls new_MySuperBaseElementSelector)"
    by (rule chain_after_combine)
qed

subsection \<open>The claims\<close>

text \<open>
  C1. For every sequence of category-append calls on one builder, from its creation on,
  whose ranks are non-decreasing and in which a rank occurs more than once only for a
  category that allows duplicates, every call succeeds and \<open>stringify()\<close> returns the
  concatenation, in call order, of the renderings of the fragments: \<open>value\<close>, \<open>#value\<close>,
  \<open>.value\<close>, \<open>[value]\<close>, \<open>:value\<close>, \<open>::value\<close>.
\<close>

theorem valid_chain_renders:
  assumes "valid_rank_sequence (map fst calls)"
  shows "fst (chain calls new_MySuperBaseElementSelector) = Inr () \<and>
         fst (stringify (snd (chain calls new_MySuperBaseElementSelector))) =
           Inr (concat (map (\<lambda>(c, v). rendering c v) calls))"
proof -
  have p: "prev new_MySuperBaseElementSelector = Number (- 1)"
    and l: "line new_MySuperBaseElementSelector = []"
    by (simp_all add: new_MySuperBaseElementSelector_def)
  have cv: "consecutive_valid (map fst calls)"
    using assms by (rule valid_imp_consecutive)
  have first: "\<forall>c v rest. calls = (c, v) # rest \<longrightarrow> - 1 < rank c \<or> (- 1 = rank c \<and> duplicates_allowed c)"
    using rank_bounds by (auto intro: less_le_trans [of "- 1" 1])
  from chain_from_Number [OF p cv first] show ?thesis
    by (simp add: stringify_def l)
qed

theorem valid_chain_renders_witness:
  "valid_rank_sequence (map fst [(Id, ''main''), (Class, ''container''), (Class, ''editable'')]) \<and>
   fst (chain [(Id, ''main''), (Class, ''container''), (Class, ''editable'')]
          new_MySuperBaseElementSelector) = Inr () \<and>
   fst (stringify (snd (chain [(Id, ''main''), (Class, ''container''), (Class, ''editable'')]
          new_MySuperBaseElementSelector))) = Inr ''#main.container.editable''"
proof -
  have h: "valid_rank_sequence (map fst [(Id, ''main''), (Class, ''container''), (Class, ''editable'')])"
    by (simp add: valid_rank_sequence_def)
  from valid_chain_renders [OF h] h show ?thesis by simp
qed

text \<open>
  C2. For all selectors \<open>a\<close> and \<open>b\<close> and every string \<open>c\<close>, the facade's
  \<open>combine(a, c, b)\<close> does not raise, and \<open>stringify()\<close> of its result is
  \<open>a.stringify() + " " + c + " " + b.stringify()\<close>, one space on each side of \<open>c\<close>.
\<close>

theorem facade_combine_renders:
  "fst (cssSelectorBuilder_combine a c b) = Inr () \<and>
   (\<exists>ra rb. fst (stringify a) = Inr ra \<and> fst (stringify b) = Inr rb \<and>
      fst (stringify (snd (cssSelectorBuilder_combine a c b))) = Inr (ra @ '' '' @ c @ '' '' @ rb))"
  by (simp add: cssSelectorBuilder_combine_def combine_def setSelector_def checkOnErrors_def
      new_MySuperBaseElementSelector_def stringify_def)

text \<open>
  C3. The claim: on a builder whose last appended rank is \<open>p\<close>, a category-append call of
  rank \<open>r < p\<close> raises \<open>OrderError\<close>. It fails once \<open>combine\<close> has been accepted on the
  builder after that append: after \<open>pseudoElement('after').combine(p, '+', q)\<close> the last
  appended rank is \<open>6\<close>, and \<open>element('div')\<close>, of rank \<open>1\<close>, is accepted.
\<close>

theorem lower_rank_accepted_after_combine:
  "accepted_appends
     [Append PseudoElement ''after'',
      Combine (snd (cssSelectorBuilder_element ''p'')) ''+'' (snd (cssSelectorBuilder_element ''q''))]
     new_MySuperBaseElementSelector = [PseudoElement] \<and>
   rank Element < rank PseudoElement \<and>
   fst (call Element ''div''
     (final_state
        [Append PseudoElement ''after'',
         Combine (snd (cssSelectorBuilder_element ''p'')) ''+'' (snd (cssSelectorBuilder_element ''q''))]
        new_MySuperBaseElementSelector)) = Inr ()"
  by (simp add: combine_def pseudoElement_def element_def setSelector_def
      checkOnErrors_def new_MySuperBaseElementSelector_def cssSelectorBuilder_element_def)

text \<open>
  C3, amended. On a builder whose last appended rank is \<open>p\<close> and on which no \<open>combine\<close>
  has been accepted since that append, whatever else was called on it, a category-append
  call of rank \<open>r < p\<close> raises \<open>OrderError\<close>, and it is that very call that raises; in
  particular \<open>element\<close> after \<open>class\<close> raises \<open>OrderError\<close>.
\<close>

theorem lower_rank_raises_OrderError:
  "(appends_since_combine ops new_MySuperBaseElementSelector [] \<noteq> [] \<and>
    rank c < rank (last (accepted_appends ops new_MySuperBaseElementSelector)) \<longrightarrow>
      fst (call c v (final_state ops new_MySuperBaseElementSelector)) = Inl OrderError) \<and>
   fst (element w (snd (cssSelectorBuilder_class u))) = Inl OrderError"
proof (intro conjI impI)
  assume h: "appends_since_combine ops new_MySuperBaseElementSelector [] \<noteq> [] \<and>
    rank c < rank (last (accepted_appends ops new_MySuperBaseElementSelector))"
  then have "prev (final_state ops new_MySuperBaseElementSelector) =
      Number (rank (last (accepted_appends ops new_MySuperBaseElementSelector)))"
    by (simp add: prev_is_last_appended)
  from call_Number [OF this, of c v] h
  show "fst (call c v (final_state ops new_MySuperBaseElementSelector)) = Inl OrderError"
    by simp
next
  have "call Class u new_MySuperBaseElementSelector =
      (Inr (), \<lparr>line = rendering Class u, prev = Number (rank Class)\<rparr>)"
    by (rule call_new)
  then have "prev (snd (cssSelectorBuilder_class u)) = Number 3"
    by (simp add: cssSelectorBuilder_class_def)
  from call_Number [OF this, of Element w]
  show "fst (element w (snd (cssSelectorBuilder_class u))) = Inl OrderError"
    by simp
qed

theorem lower_rank_raises_OrderError_witness:
  "appends_since_combine
     [Append Id ''main'', Append PseudoClass ''hover'', Stringify]
     new_MySuperBaseElementSelector [] \<noteq> [] \<and>
   last (accepted_appends [Append Id ''main'', Append PseudoClass ''hover'', Stringify]
     new_MySuperBaseElementSelector) = PseudoClass \<and>
   rank Class < rank PseudoClass \<and>
   fst (call Class ''b''
     (final_state [Append Id ''main'', Append PseudoClass ''hover'', Stringify]
        new_MySuperBaseElementSelector)) = Inl OrderError \<and>
   fst (element ''div'' (snd (cssSelectorBuilder_class ''a''))) = Inl OrderError"
proof -
  have e: "appends_since_combine
     [Append Id ''main'', Append PseudoClass ''hover'', Stringify]
     new_MySuperBaseElementSelector [] = [Id, PseudoClass]"
    "accepted_appends [Append Id ''main'', Append PseudoClass ''hover'', Stringify]
     new_MySuperBaseElementSelector = [Id, PseudoClass]"
    by (simp_all add: id'_def pseudoClass_def setSelector_def stringify_def
      checkOnErrors_def new_MySuperBaseElementSelector_def)
  from lower_rank_raises_OrderError
    [of "[Append Id ''main'', Append PseudoClass ''hover'', Stringify]" Class "''b''" "''div''" "''a''"] e
  show ?thesis by (simp del: call.simps final_state.simps)
qed

text \<open>
  C4. The claim: on a builder whose last appended rank equals the rank of the new
  category-append call, the call raises \<open>DuplicateError\<close> when the category forbids
  duplicates. It fails once \<open>combine\<close> has been accepted on the builder after that append:
  after \<open>element('div').combine(p, '+', q)\<close> a second \<open>element('span')\<close> is accepted.
\<close>

theorem repeated_element_accepted_after_combine:
  "accepted_appends
     [Append Element ''div'',
      Combine (snd (cssSelectorBuilder_element ''p'')) ''+'' (snd (cssSelectorBuilder_element ''q''))]
     new_MySuperBaseElementSelector = [Element] \<and>
   \<not> duplicates_allowed Element \<and>
   fst (call Element ''span''
     (final_state
        [Append Element ''div'',
         Combine (snd (cssSelectorBuilder_element ''p'')) ''+'' (snd (cssSelectorBuilder_element ''q''))]
        new_MySuperBaseElementSelector)) = Inr ()"
  by (simp add: combine_def element_def setSelector_def
      checkOnErrors_def new_MySuperBaseElementSelector_def cssSelectorBuilder_element_def)

text \<open>
  C4, amended. On a builder whose last appended rank equals the rank of the new
  category-append call and on which no \<open>combine\<close> has been accepted since that append,
  whatever else was called on it, the call raises \<open>DuplicateError\<close> when the category
  forbids duplicates, which element, id and pseudo-element do; in particular \<open>element\<close>
  twice in a row raises \<open>DuplicateError\<close>.
\<close>

theorem repeated_once_only_raises_DuplicateError:
  "(appends_since_combine ops new_MySuperBaseElementSelector [] \<noteq> [] \<and>
    rank c = rank (last (accepted_appends ops new_MySuperBaseElementSelector)) \<and>
    \<not> duplicates_allowed c \<longrightarrow>
      fst (call c v (final_state ops new_MySuperBaseElementSelector)) = Inl DuplicateError) \<and>
   (\<not> duplicates_allowed c) = (c \<in> {Element, Id, PseudoElement}) \<and>
   fst (element w (snd (cssSelectorBuilder_element u))) = Inl DuplicateError"
proof (intro conjI impI)
  assume h: "appends_since_combine ops new_MySuperBaseElementSelector [] \<noteq> [] \<and>
    rank c = rank (last (accepted_appends ops new_MySuperBaseElementSelector)) \<and>
    \<not> duplicates_allowed c"
  then have "prev (final_state ops new_MySuperBaseElementSelector) =
      Number (rank (last (accepted_appends ops new_MySuperBaseElementSelector)))"
    by (simp add: prev_is_last_appended)
  from call_Number [OF this, of c v] h
  show "fst (call c v (final_state ops new_MySuperBaseElementSelector)) = Inl DuplicateError"
    by simp
next
  show "(\<not> duplicates_allowed c) = (c \<in> {Element, Id, PseudoElement})"
    by (cases c) simp_all
next
  have "call Element u new_MySuperBaseElementSelector =
      (Inr (), \<lparr>line = rendering Element u, prev = Number (rank Element)\<rparr>)"
    by (rule call_new)
  then have "prev (snd (cssSelectorBuilder_element u)) = Number (rank Element)"
    by (simp add: cssSelectorBuilder_element_def)
  from call_Number [OF this, of Element w]
  show "fst (element w (snd (cssSelectorBuilder_element u))) = Inl DuplicateError"
    by simp
qed

theorem repeated_once_only_raises_DuplicateError_witness:
  "appends_since_combine
     [Append Id ''main'', Append Element ''div'', Stringify]
     new_MySuperBaseElementSelector [] \<noteq> [] \<and>
   last (accepted_appends [Append Id ''main'', Append Element ''div'', Stringify]
     new_MySuperBaseElementSelector) = Id \<and>
   \<not> duplicates_allowed Id \<and>
   fst (call Id ''other''
     (final_state [Append Id ''main'', Append Element ''div'', Stringify]
        new_MySuperBaseElementSelector)) = Inl DuplicateError \<and>
   fst (element ''span'' (snd (cssSelectorBuilder_element ''div''))) = Inl DuplicateError"
proof -
  have e: "appends_since_combine
     [Append Id ''main'', Append Element ''div'', Stringify]
     new_MySuperBaseElementSelector [] = [Id]"
    "accepted_appends [Append Id ''main'', Append Element ''div'', Stringify]
     new_MySuperBaseElementSelector = [Id]"
    by (simp_all add: id'_def element_def setSelector_def stringify_def
      checkOnErrors_def new_MySuperBaseElementSelector_def)
  from repeated_once_only_raises_DuplicateError
    [of "[Append Id ''main'', Append Element ''div'', Stringify]" Id "''other''" "''span''" "''div''"] e
  show ?thesis by (simp del: call.simps final_state.simps)
qed

text \<open>
  C5. The claim: on every selector the ranks of the accepted category-append calls, in call
  order, are non-decreasing, and a rank occurs twice in a row only for a category that
  allows duplicates. It fails when \<open>combine\<close> is called on the selector between two
  category-append calls: \<open>pseudoElement('after').combine(p, '+', q).element('div')\<close> is
  accepted, ranks \<open>6\<close> then \<open>1\<close>.
\<close>

theorem combine_breaks_rank_order:
  "accepted_appends
     [Append PseudoElement ''after'',
      Combine (snd (cssSelectorBuilder_element ''p'')) ''+'' (snd (cssSelectorBuilder_element ''q'')),
      Append Element ''div'']
     new_MySuperBaseElementSelector = [PseudoElement, Element] \<and>
   \<not> consecutive_valid [PseudoElement, Element]"
  by (simp add: consecutive_valid_def combine_def pseudoElement_def element_def setSelector_def
      checkOnErrors_def new_MySuperBaseElementSelector_def cssSelectorBuilder_element_def)

text \<open>
  C5, amended. On every selector, whatever is called on it, the ranks of the category-append
  calls accepted since its creation or since the last accepted \<open>combine\<close> on it, in call
  order, are non-decreasing, and a rank occurs twice in a row only for a category that
  allows duplicates; so the claim holds for every selector on which \<open>combine\<close> is not
  called.
\<close>

theorem ranks_valid_since_combine:
  "consecutive_valid (appends_since_combine ops new_MySuperBaseElementSelector []) \<and>
   ((\<forall>a k b. Combine a k b \<notin> set ops) \<longrightarrow>
      consecutive_valid (accepted_appends ops new_MySuperBaseElementSelector))"
proof -
  have v: "consecutive_valid (appends_since_combine ops new_MySuperBaseElementSelector [])"
    by (rule appends_since_combine_valid) (simp_all add: consecutive_valid_Nil)
  show ?thesis
  proof (intro conjI impI)
    assume "\<forall>a k b. Combine a k b \<notin> set ops"
    from appends_without_combine [OF this, of new_MySuperBaseElementSelector "[]"] v
    show "consecutive_valid (accepted_appends ops new_MySuperBaseElementSelector)" by simp
  qed (rule v)
qed

theorem ranks_valid_since_combine_witness:
  "appends_since_combine
     [Append Class ''b'', Append Element ''div'', Stringify, Append Class ''c'']
     new_MySuperBaseElementSelector [] = [Class, Class] \<and>
   (\<forall>a k b. Combine a k b \<notin> set [Append Class ''b'', Append Element ''div'', Stringify, Append Class ''c'']) \<and>
   accepted_appends [Append Class ''b'', Append Element ''div'', Stringify, Append Class ''c'']
     new_MySuperBaseElementSelector = [Class, Class] \<and>
   consecutive_valid [Class, Class]"
proof -
  have h: "\<forall>a k b. Combine a k b \<notin> set [Append Class ''b'', Append Element ''div'', Stringify, Append Class ''c'']"
    by simp
  have e: "accepted_appends [Append Class ''b'', Append Element ''div'', Stringify, Append Class ''c'']
     new_MySuperBaseElementSelector = [Class, Class]"
    "appends_since_combine
     [Append Class ''b'', Append Element ''div'', Stringify, Append Class ''c'']
     new_MySuperBaseElementSelector [] = [Class, Class]"
    by (simp_all add: class'_def element_def setSelector_def stringify_def
      checkOnErrors_def new_MySuperBaseElementSelector_def)
  from ranks_valid_since_combine
    [of "[Append Class ''b'', Append Element ''div'', Stringify, Append Class ''c'']"] h e
  show ?thesis by simp
qed

text \<open>
  C6. \<open>combine\<close> is never subject to category or order validation, and category-append
  calls chained on the selector it returns start a fresh ordering context. The code misses
  the first part where \<open>combine\<close> runs on a selector whose \<open>prev\<close> is already undefined, as
  on the selector that the facade's \<open>combine\<close> returns: \<open>checkOnErrors\<close> compares
  \<open>undefined === undefined\<close> with no duplicate flag, and \<open>combine\<close> raises the error of a
  repeated element, id or pseudo-element.
\<close>

theorem combine_after_combine_raises:
  "fst (cssSelectorBuilder_combine (snd (cssSelectorBuilder_element ''p'')) ''+''
          (snd (cssSelectorBuilder_element ''q''))) = Inr () \<and>
   fst (combine (snd (cssSelectorBuilder_element ''a'')) ''~'' (snd (cssSelectorBuilder_element ''b''))
     (snd (cssSelectorBuilder_combine (snd (cssSelectorBuilder_element ''p'')) ''+''
            (snd (cssSelectorBuilder_element ''q''))))) = Inl DuplicateError"
  by (simp add: cssSelectorBuilder_combine_def combine_def setSelector_def checkOnErrors_def
      new_MySuperBaseElementSelector_def)

text \<open>
  C7. \<open>stringify()\<close> is a pure read: it leaves the selector as it was, a second
  \<open>stringify()\<close> returns the same string, and a category-append call after it behaves as
  without it and extends what \<open>stringify()\<close> returns next.
\<close>

theorem stringify_pure:
  "snd (stringify this) = this \<and>
   fst (stringify (snd (stringify this))) = fst (stringify this) \<and>
   call c v (snd (stringify this)) = call c v this \<and>
   (fst (call c v this) = Inr () \<longrightarrow>
      (\<exists>old. fst (stringify this) = Inr old \<and>
         fst (stringify (snd (call c v (snd (stringify this))))) = Inr (old @ rendering c v)))"
  by (cases "prev this")
    (auto simp: stringify_def call_setSelector setSelector_def checkOnErrors_def split: if_splits)

theorem stringify_pure_witness:
  "fst (call Class ''b'' (snd (cssSelectorBuilder_id ''a''))) = Inr () \<and>
   fst (stringify (snd (cssSelectorBuilder_id ''a''))) = Inr ''#a'' \<and>
   fst (stringify (snd (stringify (snd (cssSelectorBuilder_id ''a''))))) = Inr ''#a'' \<and>
   fst (stringify (snd (call Class ''b'' (snd (stringify (snd (cssSelectorBuilder_id ''a''))))))) = Inr ''#a.b''"
proof -
  have h: "fst (call Class ''b'' (snd (cssSelectorBuilder_id ''a''))) = Inr ()"
    and s: "fst (stringify (snd (cssSelectorBuilder_id ''a''))) = Inr ''#a''"
    by (simp_all add: cssSelectorBuilder_id_def id'_def class'_def setSelector_def stringify_def
        checkOnErrors_def new_MySuperBaseElementSelector_def)
  from stringify_pure [of "snd (cssSelectorBuilder_id ''a'')" Class "''b''"] h s
  show ?thesis by (auto simp del: call.simps)
qed

text \<open>
  C8. No text is validated: the facade's \<open>combine(a, k, b)\<close> accepts every string \<open>k\<close>
  and inserts it as it is, whether \<open>combine\<close> or a category-append call is accepted does
  not depend on the text it is given, and an accepted call appends its text unchanged,
  between the fixed marks of its category.
\<close>

theorem values_inserted_verbatim:
  "fst (cssSelectorBuilder_combine a k b) = Inr () \<and>
   line (snd (cssSelectorBuilder_combine a k b)) = line a @ '' '' @ k @ '' '' @ line b \<and>
   fst (combine a k b this) = fst (combine a k' b this) \<and>
   (fst (combine a k b this) = Inr () \<longrightarrow>
      line (snd (combine a k b this)) = line this @ line a @ '' '' @ k @ '' '' @ line b) \<and>
   fst (call c v this) = fst (call c v' this) \<and>
   (fst (call c v this) = Inr () \<longrightarrow> line (snd (call c v this)) = line this @ rendering c v) \<and>
   (\<exists>before after. \<forall>w. rendering c w = before @ w @ after)"
proof (intro conjI impI)
  show "fst (cssSelectorBuilder_combine a k b) = Inr ()"
    "line (snd (cssSelectorBuilder_combine a k b)) = line a @ '' '' @ k @ '' '' @ line b"
    by (simp_all add: cssSelectorBuilder_combine_def combine_accepted new_MySuperBaseElementSelector_def)
  show "fst (combine a k b this) = fst (combine a k' b this)"
    by (simp add: combine_accepted)
  show "line (snd (combine a k b this)) = line this @ line a @ '' '' @ k @ '' '' @ line b"
    if "fst (combine a k b this) = Inr ()"
    using that by (simp add: combine_accepted split: if_splits)
  show "fst (call c v this) = fst (call c v' this)"
    by (simp add: call_setSelector setSelector_def checkOnErrors_def)
  show "line (snd (call c v this)) = line this @ rendering c v" if "fst (call c v this) = Inr ()"
    using that by (simp add: call_setSelector setSelector_def checkOnErrors_def split: if_splits)
  show "\<exists>before after. \<forall>w. rendering c w = before @ w @ after"
  proof (cases c)
    case Attribute
    have "\<forall>w. rendering Attribute w = ''['' @ w @ '']''" by simp
    with Attribute show ?thesis by blast
  next
    case Element
    have "\<forall>w. rendering Element w = [] @ w @ []" by simp
    with Element show ?thesis by blast
  next
    case Id
    have "\<forall>w. rendering Id w = ''#'' @ w @ []" by simp
    with Id show ?thesis by blast
  next
    case Class
    have "\<forall>w. rendering Class w = ''.'' @ w @ []" by simp
    with Class show ?thesis by blast
  next
    case PseudoClass
    have "\<forall>w. rendering PseudoClass w = '':'' @ w @ []" by simp
    with PseudoClass show ?thesis by blast
  next
    case PseudoElement
    have "\<forall>w. rendering PseudoElement w = ''::'' @ w @ []" by simp
    with PseudoElement show ?thesis by blast
  qed
qed

theorem values_inserted_verbatim_witness:
  "fst (combine (snd (cssSelectorBuilder_element ''p'')) ''not a combinator'' (snd (cssSelectorBuilder_element ''q''))
          new_MySuperBaseElementSelector) = Inr () \<and>
   line (snd (combine (snd (cssSelectorBuilder_element ''p'')) ''not a combinator'' (snd (cssSelectorBuilder_element ''q''))
          new_MySuperBaseElementSelector)) = ''p not a combinator q'' \<and>
   fst (call Class ''#[: .'' new_MySuperBaseElementSelector) = Inr () \<and>
   line (snd (call Class ''#[: .'' new_MySuperBaseElementSelector)) = ''.#[: .''"
proof -
  have h: "fst (combine (snd (cssSelectorBuilder_element ''p'')) ''not a combinator'' (snd (cssSelectorBuilder_element ''q''))
          new_MySuperBaseElementSelector) = Inr ()"
    "fst (call Class ''#[: .'' new_MySuperBaseElementSelector) = Inr ()"
    by (simp_all add: combine_def class'_def setSelector_def checkOnErrors_def new_MySuperBaseElementSelector_def)
  have l: "line (snd (cssSelectorBuilder_element ''p'')) = ''p''" "line (snd (cssSelectorBuilder_element ''q'')) = ''q''"
    "line new_MySuperBaseElementSelector = []"
    by (simp_all add: cssSelectorBuilder_element_def element_def setSelector_def checkOnErrors_def
        new_MySuperBaseElementSelector_def)
  from values_inserted_verbatim
    [of "snd (cssSelectorBuilder_element ''p'')" "''not a combinator''" "snd (cssSelectorBuilder_element ''q'')"
        new_MySuperBaseElementSelector "''not a combinator''" Class "''#[: .''" "''#[: .''"] h l
  show ?thesis by (simp del: call.simps)
qed

text \<open>
  C9. A category-append call that raises \<open>OrderError\<close> or \<open>DuplicateError\<close> leaves the
  builder's text and last rank as they were before the call, so that the builder can
  still be stringified or extended by a legal fragment.
\<close>

theorem failed_call_leaves_builder:
  "fst (call c v this) = Inl e \<longrightarrow>
     (e = OrderError \<or> e = DuplicateError) \<and>
     snd (call c v this) = this \<and>
     line (snd (call c v this)) = line this \<and> prev (snd (call c v this)) = prev this \<and>
     stringify (snd (call c v this)) = stringify this \<and>
     call c' v' (snd (call c v this)) = call c' v' this"
proof
  assume "fst (call c v this) = Inl e"
  then have "call c v this = (Inl e, snd (call c v this))" by (metis prod.collapse)
  then have "snd (call c v this) = this" by (rule call_raises_unchanged)
  moreover have "e = OrderError \<or> e = DuplicateError" by (cases e) simp_all
  ultimately show "(e = OrderError \<or> e = DuplicateError) \<and>
     snd (call c v this) = this \<and>
     line (snd (call c v this)) = line this \<and> prev (snd (call c v this)) = prev this \<and>
     stringify (snd (call c v this)) = stringify this \<and>
     call c' v' (snd (call c v this)) = call c' v' this" by simp
qed

theorem failed_call_leaves_builder_witness:
  "fst (call Element ''div'' (snd (cssSelectorBuilder_class ''a''))) = Inl OrderError \<and>
   snd (call Element ''div'' (snd (cssSelectorBuilder_class ''a''))) = snd (cssSelectorBuilder_class ''a'') \<and>
   fst (stringify (snd (call Element ''div'' (snd (cssSelectorBuilder_class ''a''))))) = Inr ''.a'' \<and>
   fst (call Attribute ''x'' (snd (call Element ''div'' (snd (cssSelectorBuilder_class ''a''))))) = Inr ()"
proof -
  have h: "fst (call Element ''div'' (snd (cssSelectorBuilder_class ''a''))) = Inl OrderError"
    and s: "fst (stringify (snd (cssSelectorBuilder_class ''a''))) = Inr ''.a''"
    and a: "fst (call Attribute ''x'' (snd (cssSelectorBuilder_class ''a''))) = Inr ()"
    by (simp_all add: cssSelectorBuilder_class_def class'_def element_def attr_def setSelector_def
        stringify_def checkOnErrors_def new_MySuperBaseElementSelector_def)
  from failed_call_leaves_builder
    [of Element "''div''" "snd (cssSelectorBuilder_class ''a'')" OrderError Attribute "''x''"] h s a
  show ?thesis by (simp del: call.simps)
qed

subsection \<open>fromJSON\<close>

lemma setPrototypeOf_not_null: "Object_setPrototypeOf obj proto \<noteq> Inr VNull"
  by (cases "(obj, proto)" rule: Object_setPrototypeOf.cases) simp_all

lemma setPrototypeOf_undefined: "Object_setPrototypeOf obj JSundefined = Inl TypeError"
  by (cases obj) simp_all

text \<open>
  C10. The claim: \<open>fromJSON\<close> returns \<open>null\<close> exactly when both arguments are falsy, and
  otherwise returns the object parsed from \<open>json\<close> with its prototype set to \<open>proto\<close>. The
  second half fails: with \<open>Rectangle.prototype\<close> the text \<open>null\<close> raises \<open>TypeError\<close>, the
  empty text raises \<open>SyntaxError\<close> and the text \<open>5\<close> gives the number itself; with \<open>proto\<close>
  undefined the text of an empty object raises \<open>TypeError\<close>.
\<close>

theorem fromJSON_raises:
  \<open>\<not> (js_not_string (Given (js ''null'')) \<and> js_not_object (Given Rectangle_prototype)) \<and>
   fromJSON (Given Rectangle_prototype) (Given (js ''null'')) = Inl TypeError \<and>
   fromJSON (Given Rectangle_prototype) (Given (js '''')) = Inl SyntaxError \<and>
   fromJSON JSundefined (Given (js ''{}'')) = Inl TypeError \<and>
   fromJSON (Given Rectangle_prototype) (Given (js ''5'')) = Inr (VNumber (js ''5''))\<close>
  by (simp add: fromJSON_def JSON_parse_def js_def begin_value_def is_ws_def is_digit_def)

text \<open>
  C10, amended. \<open>fromJSON\<close> returns \<open>null\<close> exactly when both arguments are falsy.
  Otherwise it raises what \<open>JSON.parse(json)\<close> raises; it raises \<open>TypeError\<close> when the
  parsed value is \<open>null\<close> or \<open>proto\<close> is undefined; and for \<open>proto\<close> an object or \<open>null\<close>
  it returns a parsed object or array with its parsed content and its prototype set to
  \<open>proto\<close>, and a parsed boolean, number or string as it is.
\<close>

theorem fromJSON_result:
  "(fromJSON proto json = Inr VNull) = (js_not_string json \<and> js_not_object proto) \<and>
   (\<not> (js_not_string json \<and> js_not_object proto) \<longrightarrow>
      (JSON_parse json = Inl e \<longrightarrow> fromJSON proto json = Inl e) \<and>
      (JSON_parse json = Inr VNull \<longrightarrow> fromJSON proto json = Inl TypeError) \<and>
      (JSON_parse json = Inr v \<and> proto = JSundefined \<longrightarrow> fromJSON proto json = Inl TypeError) \<and>
      (JSON_parse json = Inr (VObject p properties) \<and> proto \<noteq> JSundefined \<longrightarrow>
         fromJSON proto json = Inr (VObject (prototype_slot proto) properties)) \<and>
      (JSON_parse json = Inr (VArray p elements) \<and> proto \<noteq> JSundefined \<longrightarrow>
         fromJSON proto json = Inr (VArray (prototype_slot proto) elements)) \<and>
      (JSON_parse json = Inr (VBool b) \<and> proto \<noteq> JSundefined \<longrightarrow> fromJSON proto json = Inr (VBool b)) \<and>
      (JSON_parse json = Inr (VNumber n) \<and> proto \<noteq> JSundefined \<longrightarrow> fromJSON proto json = Inr (VNumber n)) \<and>
      (JSON_parse json = Inr (VString s) \<and> proto \<noteq> JSundefined \<longrightarrow> fromJSON proto json = Inr (VString s)))"
proof (intro conjI impI)
  show "(fromJSON proto json = Inr VNull) = (js_not_string json \<and> js_not_object proto)"
    by (cases "JSON_parse json") (simp_all add: fromJSON_def setPrototypeOf_not_null)
next
  assume "\<not> (js_not_string json \<and> js_not_object proto)"
  then have f: "fromJSON proto json =
      (case JSON_parse json of Inl e \<Rightarrow> Inl e | Inr obj \<Rightarrow> Object_setPrototypeOf obj proto)"
    unfolding fromJSON_def by (rule if_not_P)
  show "fromJSON proto json = Inl e" if "JSON_parse json = Inl e"
    using that f by simp
  show "fromJSON proto json = Inl TypeError" if "JSON_parse json = Inr VNull"
    using that f by simp
  show "fromJSON proto json = Inl TypeError" if "JSON_parse json = Inr v \<and> proto = JSundefined"
    using that f by (simp add: setPrototypeOf_undefined)
  show "fromJSON proto json = Inr (VObject (prototype_slot proto) properties)"
    if "JSON_parse json = Inr (VObject p properties) \<and> proto \<noteq> JSundefined"
    using that f by (cases proto) simp_all
  show "fromJSON proto json = Inr (VArray (prototype_slot proto) elements)"
    if "JSON_parse json = Inr (VArray p elements) \<and> proto \<noteq> JSundefined"
    using that f by (cases proto) simp_all
  show "fromJSON proto json = Inr (VBool b)" if "JSON_parse json = Inr (VBool b) \<and> proto \<noteq> JSundefined"
    using that f by (cases proto) simp_all
  show "fromJSON proto json = Inr (VNumber n)" if "JSON_parse json = Inr (VNumber n) \<and> proto \<noteq> JSundefined"
    using that f by (cases proto) simp_all
  show "fromJSON proto json = Inr (VString s)" if "JSON_parse json = Inr (VString s) \<and> proto \<noteq> JSundefined"
    using that f by (cases proto) simp_all
qed

theorem fromJSON_result_witness:
  \<open>\<not> (js_not_string (Given (js ''{"width":10, "height":20}'')) \<and> js_not_object (Given Rectangle_prototype)) \<and>
   JSON_parse (Given (js ''{"width":10, "height":20}'')) =
     Inr (VObject (Some Object_prototype)
           [(js ''width'', VNumber (js ''10'')), (js ''height'', VNumber (js ''20''))]) \<and>
   Given Rectangle_prototype \<noteq> JSundefined \<and>
   fromJSON (Given Rectangle_prototype) (Given (js ''{"width":10, "height":20}'')) =
     Inr (VObject (Some Rectangle_prototype)
           [(js ''width'', VNumber (js ''10'')), (js ''height'', VNumber (js ''20''))]) \<and>
   fromJSON JSnull (Given []) = Inr VNull\<close>
proof -
  have h: \<open>\<not> (js_not_string (Given (js ''{"width":10, "height":20}'')) \<and> js_not_object (Given Rectangle_prototype))\<close>
    by (simp add: js_def)
  have p: \<open>JSON_parse (Given (js ''{"width":10, "height":20}'')) =
     Inr (VObject (Some Object_prototype)
           [(js ''width'', VNumber (js ''10'')), (js ''height'', VNumber (js ''20''))])\<close>
    by (simp add: JSON_parse_def js_def begin_value_def is_ws_def is_digit_def)
  have n: "js_not_string (Given []) \<and> js_not_object JSnull" by simp
  from fromJSON_result
    [of "Given Rectangle_prototype" \<open>Given (js ''{"width":10, "height":20}'')\<close> SyntaxError VNull
        "Some Object_prototype" \<open>[(js ''width'', VNumber (js ''10'')), (js ''height'', VNumber (js ''20''))]\<close>]
    fromJSON_result [of JSnull "Given []"] h p n
  show ?thesis by simp
qed

end
